theory Spec2Isabelle
  imports Main "HOL-Library.Sublist"
begin

section \<open>models.py: chat messages and the bounded conversation history\<close>

text \<open>
  Times are integers (a count of seconds, or of milliseconds where the source has them);
  strings are byte strings.

  \<^verbatim>\<open>class Message(BaseModel): role: str; content: str; timestamp: datetime = datetime.now()\<close>

  The default of \<open>timestamp\<close> is an expression of the class body: Python evaluates it when
  the class statement runs, at import of models.py. That value is the parameter
  \<open>class_time\<close> of the constructor below; the constructor has no other clock.
\<close>

record Message =
  msg_role :: string
  msg_content :: string
  msg_timestamp :: int

record ConversationHistory =
  messages :: "Message list"
  max_history :: int

definition new_Message :: "int \<Rightarrow> string \<Rightarrow> string \<Rightarrow> Message" where
  "new_Message class_time r c = \<lparr>msg_role = r, msg_content = c, msg_timestamp = class_time\<rparr>"

text \<open>\<^verbatim>\<open>ConversationHistory()\<close>: no messages, capacity 10.\<close>

definition new_ConversationHistory :: ConversationHistory where
  "new_ConversationHistory = \<lparr>messages = [], max_history = 10\<rparr>"

text \<open>
  \<^verbatim>\<open>self.messages.append(Message(role=role, content=content))
  if len(self.messages) > self.max_history: self.messages.pop(0)\<close>

  The list is never empty after the append, so \<open>pop(0)\<close> cannot raise; it removes the head.
\<close>

definition add_message :: "int \<Rightarrow> ConversationHistory \<Rightarrow> string \<Rightarrow> string \<Rightarrow> ConversationHistory" where
  "add_message class_time h r c =
     (let ms = messages h @ [new_Message class_time r c]
      in if int (length ms) > max_history h then h\<lparr>messages := drop 1 ms\<rparr>
         else h\<lparr>messages := ms\<rparr>)"

text \<open>
  A call of \<open>add_message\<close> as the session loop makes it: at some wall-clock time, with a
  role and a content. The time of the call is part of the environment; \<open>add_message\<close>
  takes a role and a content only.
\<close>

record call =
  call_time :: int
  call_role :: string
  call_content :: string

definition do_call :: "int \<Rightarrow> ConversationHistory \<Rightarrow> call \<Rightarrow> ConversationHistory" where
  "do_call class_time h c = add_message class_time h (call_role c) (call_content c)"

definition run_calls :: "int \<Rightarrow> ConversationHistory \<Rightarrow> call list \<Rightarrow> ConversationHistory" where
  "run_calls class_time h cs = foldl (do_call class_time) h cs"

definition call_message :: "int \<Rightarrow> call \<Rightarrow> Message" where
  "call_message class_time c = new_Message class_time (call_role c) (call_content c)"

section \<open>Python strings and JSON values\<close>

text \<open>
  \<^verbatim>\<open>str.lower\<close> on ASCII letters; every other byte is kept.
\<close>

definition lower_char :: "char \<Rightarrow> char" where
  "lower_char c =
     (case map_of (zip ''ABCDEFGHIJKLMNOPQRSTUVWXYZ'' ''abcdefghijklmnopqrstuvwxyz'') c of
        None \<Rightarrow> c
      | Some l \<Rightarrow> l)"

definition lower :: "string \<Rightarrow> string" where
  "lower s = map lower_char s"

text \<open>\<^verbatim>\<open>s.startswith(p)\<close>, \<^verbatim>\<open>s.endswith(p)\<close> and the substring test \<^verbatim>\<open>p in s\<close>.\<close>

fun startswith :: "string \<Rightarrow> string \<Rightarrow> bool" where
  "startswith s [] = True"
| "startswith [] (p # ps) = False"
| "startswith (c # cs) (p # ps) = (c = p \<and> startswith cs ps)"

definition endswith :: "string \<Rightarrow> string \<Rightarrow> bool" where
  "endswith s p = startswith (rev s) (rev p)"

fun py_in :: "string \<Rightarrow> string \<Rightarrow> bool" where
  "py_in p [] = (p = [])"
| "py_in p (c # cs) = (startswith (c # cs) p \<or> py_in p cs)"

text \<open>\<^verbatim>\<open>any(pattern in s for pattern in patterns)\<close>\<close>

definition any_in :: "string list \<Rightarrow> string \<Rightarrow> bool" where
  "any_in patterns s = list_ex (\<lambda>p. py_in p s) patterns"

text \<open>
  \<^verbatim>\<open>str.strip()\<close> removes leading and trailing whitespace; the ASCII whitespace of Python
  is tab, line feed, vertical tab, form feed, carriage return, the separators 28 to 31
  and space.
\<close>

definition is_space :: "char \<Rightarrow> bool" where
  "is_space c = (let n = (of_char c :: nat) in (9 \<le> n \<and> n \<le> 13) \<or> (28 \<le> n \<and> n \<le> 32))"

definition lstrip :: "string \<Rightarrow> string" where
  "lstrip s = dropWhile is_space s"

definition rstrip :: "string \<Rightarrow> string" where
  "rstrip s = rev (dropWhile is_space (rev s))"

definition strip :: "string \<Rightarrow> string" where
  "strip s = rstrip (lstrip s)"

text \<open>
  A value of a parsed JSON document (the \<open>Any\<close> of \<^verbatim>\<open>Dict[str, Any]\<close>); numbers are
  integers here. Python's \<open>None\<close> is \<open>JNull\<close>. \<open>truthy\<close> is the truth value Python
  gives the value in \<^verbatim>\<open>if not x\<close>.
\<close>

datatype jval = JNull | JBool bool | JNum int | JStr string | JList "jval list"

fun truthy :: "jval \<Rightarrow> bool" where
  "truthy JNull = False"
| "truthy (JBool b) = b"
| "truthy (JNum n) = (n \<noteq> 0)"
| "truthy (JStr s) = (s \<noteq> [])"
| "truthy (JList xs) = (xs \<noteq> [])"

text \<open>\<^verbatim>\<open>d.get(k)\<close> and \<^verbatim>\<open>d.get(k, default)\<close>\<close>

definition py_get :: "(string \<rightharpoonup> jval) \<Rightarrow> string \<Rightarrow> jval" where
  "py_get d k = (case d k of None \<Rightarrow> JNull | Some v \<Rightarrow> v)"

definition py_get_default :: "(string \<rightharpoonup> jval) \<Rightarrow> string \<Rightarrow> jval \<Rightarrow> jval" where
  "py_get_default d k dflt = (case d k of None \<Rightarrow> dflt | Some v \<Rightarrow> v)"

section \<open>main.py: the intent classifiers\<close>

text \<open>
  The table \<open>intent_categories\<close> of each classifier: a dict, iterated in insertion order,
  from the category to its indicators, its entities and its required entities.
\<close>

record category_info =
  indicators :: "string list"
  entities :: "string list"
  required :: "string list"

definition gmail_intent_categories :: "(string \<times> category_info) list" where
  "gmail_intent_categories =
    [(''summarize'',
      \<lparr>indicators =
         [''summarize'', ''summarise'', ''summary'', ''summaries'', ''summarization'',
          ''summarisation'', ''overview'', ''review'', ''recap'', ''recapitulate'',
          ''what'' @ [CHR 0x27] @ ''s in'', ''what is in'', ''whats in'', ''what are my'',
          ''what are the'', ''unread'', ''inbox'', ''emails'', ''messages''],
       entities = [''count'', ''unread_only'', ''time_period''],
       required = []\<rparr>),
     (''send'',
      \<lparr>indicators =
         [''send'', ''write'', ''compose'', ''draft'', ''create'', ''new email'',
          ''new message'', ''write to'', ''email to'', ''mail to'', ''message to'',
          ''forward'', ''reply'', ''respond'', ''response''],
       entities = [''to'', ''subject'', ''content'', ''cc'', ''bcc''],
       required = [''to'', ''subject'', ''content'']\<rparr>),
     (''retrieve'',
      \<lparr>indicators =
         [''get'', ''retrieve'', ''fetch'', ''find'', ''search'', ''look up'',
          ''show me'', ''display'', ''view'', ''read'', ''open'', ''access'',
          ''specific'', ''particular'', ''certain'', ''this email''],
       entities = [''email_id'', ''search_query'', ''time_period''],
       required = [''email_id'']\<rparr>)]"

definition calendar_intent_categories :: "(string \<times> category_info) list" where
  "calendar_intent_categories =
    [(''create'',
      \<lparr>indicators = [''create'', ''schedule'', ''add'', ''book'', ''set up'', ''setup'',
                     ''arrange'', ''plan''],
       entities = [''event_title'', ''start_date'', ''duration'', ''attendees'', ''location''],
       required = [''event_title'', ''start_date'']\<rparr>),
     (''list'',
      \<lparr>indicators = [''list'', ''show'', ''display'', ''view'', ''check'', ''retrieve'',
                     ''get'', ''fetch''],
       entities = [''start_date'', ''end_date'', ''count''],
       required = []\<rparr>),
     (''availability'',
      \<lparr>indicators = [''available'', ''availability'', ''free'', ''open'', ''when am i free''],
       entities = [''start_date'', ''end_date'', ''duration''],
       required = [''start_date'', ''end_date'', ''duration'']\<rparr>)]"

text \<open>
  \<^verbatim>\<open>for entity in info['entities']:
      if entity in params: entities[entity] = params[entity]\<close>
\<close>

fun extract_entities :: "string list \<Rightarrow> (string \<rightharpoonup> 'v) \<Rightarrow> (string \<rightharpoonup> 'v) \<Rightarrow> (string \<rightharpoonup> 'v)" where
  "extract_entities [] params ents = ents"
| "extract_entities (e # es) params ents =
     (case params e of
        None \<Rightarrow> extract_entities es params ents
      | Some v \<Rightarrow> extract_entities es params (ents(e \<mapsto> v)))"

text \<open>\<^verbatim>\<open>any(indicator in intent.lower() for indicator in info['indicators'])\<close>\<close>

definition indicator_hit :: "string \<Rightarrow> category_info \<Rightarrow> bool" where
  "indicator_hit intent info = any_in (indicators info) (lower intent)"

text \<open>
  The loop over the categories, shared by \<open>_detect_gmail_intent\<close> and
  \<open>_detect_calendar_intent\<close>. \<open>ents\<close> is the dict \<open>entities\<close>, created empty before the
  loop. The result \<open>(None, None)\<close> is \<open>None\<close>.

  \<^verbatim>\<open>missing_entities = [req for req in info['required'] if req not in entities]
  if missing_entities: return None, None
  return category, entities\<close>
\<close>

fun detect_loop ::
  "(string \<times> category_info) list \<Rightarrow> string \<Rightarrow> (string \<rightharpoonup> 'v) \<Rightarrow> (string \<rightharpoonup> 'v)
   \<Rightarrow> (string \<times> (string \<rightharpoonup> 'v)) option" where
  "detect_loop [] intent params ents = None"
| "detect_loop ((category, info) # rest) intent params ents =
     (if indicator_hit intent info then
        (let ents' = extract_entities (entities info) params ents;
             missing_entities = filter (\<lambda>req. ents' req = None) (required info)
         in if missing_entities \<noteq> [] then None else Some (category, ents'))
      else detect_loop rest intent params ents)"

definition detect_gmail_intent ::
  "string \<Rightarrow> (string \<rightharpoonup> 'v) \<Rightarrow> (string \<times> (string \<rightharpoonup> 'v)) option" where
  "detect_gmail_intent intent params = detect_loop gmail_intent_categories intent params Map.empty"

definition detect_calendar_intent ::
  "string \<Rightarrow> (string \<rightharpoonup> 'v) \<Rightarrow> (string \<times> (string \<rightharpoonup> 'v)) option" where
  "detect_calendar_intent intent params =
     detect_loop calendar_intent_categories intent params Map.empty"

text \<open>The first category, in table order, with an indicator in the intent.\<close>

definition first_hit :: "(string \<times> category_info) list \<Rightarrow> string \<Rightarrow> (string \<times> category_info) option" where
  "first_hit table intent = find (\<lambda>ci. indicator_hit intent (snd ci)) table"

section \<open>main.py: the dispatcher\<close>

text \<open>
  The cleaning step of \<open>_process_command\<close>, before \<open>json.loads\<close>:

  \<^verbatim>\<open>analysis = analysis.strip()
  if analysis.startswith('```json'): analysis = analysis[7:]
  if analysis.endswith('```'): analysis = analysis[:-3]
  analysis = analysis.strip()\<close>
\<close>

definition clean_analysis :: "string \<Rightarrow> string" where
  "clean_analysis analysis =
     (let a1 = strip analysis;
          a2 = (if startswith a1 ''```json'' then drop 7 a1 else a1);
          a3 = (if endswith a2 ''```'' then take (length a2 - 3) a2 else a2)
      in strip a3)"

text \<open>The wrapping of a text in a Markdown code fence, with whitespace around it.\<close>

definition fenced :: "string \<Rightarrow> string \<Rightarrow> string \<Rightarrow> string" where
  "fenced w1 j w2 = w1 @ ''```json'' @ j @ ''```'' @ w2"

definition email_intent_patterns :: "string list" where
  "email_intent_patterns =
    [''email'', ''mail'', ''inbox'', ''message'', ''correspondence'',
     ''send'', ''write'', ''compose'', ''draft'', ''forward'', ''reply'',
     ''incoming'', ''outgoing'', ''unread'', ''read'', ''inbox'',
     ''mailbox'', ''correspondence'', ''communication'', ''notify'',
     ''notification'', ''alert'', ''reminder'', ''announcement'']"

definition calendar_intent_patterns :: "string list" where
  "calendar_intent_patterns =
    [''calendar'', ''schedule'', ''event'', ''meeting'', ''appointment'',
     ''booking'', ''reservation'', ''plan'', ''arrange'', ''organize'',
     ''time'', ''slot'', ''availability'', ''free'', ''busy'', ''occupied'',
     ''upcoming'', ''future'', ''date'', ''day'', ''week'', ''month'',
     ''agenda'', ''diary'', ''timetable'', ''program'', ''session'',
     ''conference'', ''call'', ''interview'', ''presentation'']"

text \<open>
  The routing of \<open>_process_command\<close> once the analysis is parsed, from the value of
  \<open>analysis_data["intent"]\<close>: \<open>_handle_gmail_action\<close>, \<open>_handle_calendar_action\<close>, or the
  general answer \<open>_get_ai_response(user_input)\<close>.
\<close>

datatype route = GmailAction | CalendarAction | GeneralResponse

definition select_route :: "string \<Rightarrow> route" where
  "select_route raw_intent =
     (let intent = lower raw_intent
      in if any_in email_intent_patterns intent then GmailAction
         else if any_in calendar_intent_patterns intent then CalendarAction
         else GeneralResponse)"

section \<open>main.py: the event listing of the calendar handler\<close>

text \<open>
  The arguments that the \<open>list\<close> branch of \<open>_handle_calendar_action\<close> passes to
  \<open>list_events\<close>. \<open>current_date\<close> is \<open>datetime.now()\<close> in seconds, \<open>strftime_ymd\<close> is
  \<^verbatim>\<open>strftime("%Y-%m-%d")\<close> of the standard library, \<open>timedelta(days=7)\<close> is 604800 seconds.

  \<^verbatim>\<open>start_date = entities.get('start_date')
  if not start_date: start_date = current_date.strftime("%Y-%m-%d")
  end_date = entities.get('end_date')
  if not end_date:
      # Default to 7 days from start date
      end_date = (current_date + timedelta(days=7)).strftime("%Y-%m-%d")
  count = entities.get('count', 5)\<close>
\<close>

record list_events_args =
  arg_start_date :: jval
  arg_end_date :: jval
  arg_max_results :: jval

definition timedelta_days :: "int \<Rightarrow> int" where
  "timedelta_days n = n * 86400"

definition calendar_list_args :: "(int \<Rightarrow> string) \<Rightarrow> int \<Rightarrow> (string \<rightharpoonup> jval) \<Rightarrow> list_events_args" where
  "calendar_list_args strftime_ymd current_date ents =
     (let start0 = py_get ents ''start_date'';
          start_date = (if \<not> truthy start0 then JStr (strftime_ymd current_date) else start0);
          end0 = py_get ents ''end_date'';
          end_date = (if \<not> truthy end0
                      then JStr (strftime_ymd (current_date + timedelta_days 7)) else end0);
          count = py_get_default ents ''count'' (JNum 5)
      in \<lparr>arg_start_date = start_date, arg_end_date = end_date, arg_max_results = count\<rparr>)"

section \<open>tools.py: the search for free slots\<close>

text \<open>
  An event of the calendar, after \<open>datetime.fromisoformat\<close> of its start and its end (in
  seconds). The events are the items the calendar service returns for the range.
\<close>

record event =
  ev_start :: int
  ev_end :: int

text \<open>
  The body of the loop of \<open>check_availability\<close>, on the state made of \<open>available_slots\<close>
  and \<open>current_time\<close>; a slot is the pair of its start and its end, before formatting.

  \<^verbatim>\<open>if (event_start - current_time).total_seconds() >= duration_minutes * 60:
      slot_end = current_time + timedelta(minutes=duration_minutes)
      if slot_end <= event_start: available_slots.append({'start': ..., 'end': ...})
  current_time = event_end\<close>
\<close>

definition slot_step :: "int \<Rightarrow> (int \<times> int) list \<times> int \<Rightarrow> event \<Rightarrow> (int \<times> int) list \<times> int" where
  "slot_step duration_minutes st e =
     (let available_slots = fst st; current_time = snd st; event_start = ev_start e;
          slots' = (if event_start - current_time \<ge> duration_minutes * 60 then
                      (let slot_end = current_time + duration_minutes * 60
                       in if slot_end \<le> event_start
                          then available_slots @ [(current_time, slot_end)]
                          else available_slots)
                    else available_slots)
      in (slots', ev_end e))"

text \<open>The test after the last event, against the end of the range.\<close>

definition slot_final :: "int \<Rightarrow> int \<Rightarrow> (int \<times> int) list \<times> int \<Rightarrow> (int \<times> int) list" where
  "slot_final duration_minutes end_time st =
     (let available_slots = fst st; current_time = snd st
      in if end_time - current_time \<ge> duration_minutes * 60 then
           (let slot_end = current_time + duration_minutes * 60
            in if slot_end \<le> end_time then available_slots @ [(current_time, slot_end)]
               else available_slots)
         else available_slots)"

text \<open>
  \<open>events.sort(key=...)\<close> is a stable sort on the start; then the loop from the start of
  the range, then the final test.
\<close>

definition free_slots :: "int \<Rightarrow> int \<Rightarrow> int \<Rightarrow> event list \<Rightarrow> (int \<times> int) list" where
  "free_slots start_time end_time duration_minutes events =
     slot_final duration_minutes end_time
       (foldl (slot_step duration_minutes) ([], start_time) (sort_key ev_start events))"

text \<open>
  \<open>check_availability\<close> returns each slot as the two strings that
  \<^verbatim>\<open>strftime("%Y-%m-%d %I:%M %p")\<close> gives, here the parameter \<open>fmt\<close>.
\<close>

definition check_availability ::
  "(int \<Rightarrow> string) \<Rightarrow> int \<Rightarrow> int \<Rightarrow> int \<Rightarrow> event list \<Rightarrow> (string \<times> string) list" where
  "check_availability fmt start_time end_time duration_minutes events =
     map (\<lambda>sl. (fmt (fst sl), fmt (snd sl))) (free_slots start_time end_time duration_minutes events)"

text \<open>The values \<open>current_time\<close> takes: before the loop and after each event.\<close>

fun cursor_trace :: "int \<Rightarrow> (int \<times> int) list \<times> int \<Rightarrow> event list \<Rightarrow> int list" where
  "cursor_trace duration_minutes st [] = [snd st]"
| "cursor_trace duration_minutes st (e # es) =
     snd st # cursor_trace duration_minutes (slot_step duration_minutes st e) es"

text \<open>Two intervals of time overlap when each starts before the other ends.\<close>

definition overlaps :: "int \<times> int \<Rightarrow> event \<Rightarrow> bool" where
  "overlaps sl e = (fst sl < ev_end e \<and> ev_start e < snd sl)"

text \<open>Clock times of one day, in seconds.\<close>

definition hm :: "int \<Rightarrow> int \<Rightarrow> int" where
  "hm h m = h * 3600 + m * 60"

section \<open>tools.py and main.py: fetching and summarizing emails\<close>

record Email =
  email_id :: string
  email_subject :: string
  email_sender :: string
  email_recipient :: string
  email_content :: string
  email_timestamp :: int
  email_is_read :: bool
  email_attachments :: "string list"

record EmailSummary =
  total_emails :: int
  unread_count :: int
  recent_emails :: "Email list"
  summary :: string

text \<open>
  A message as the mail service returns it: its id, the headers of its payload, the body
  data of the parts of the payload when it has parts, the body data of the payload, its
  internal date (milliseconds) and its labels.
\<close>

record gmail_message =
  gm_id :: string
  gm_headers :: "(string \<times> string) list"
  gm_parts :: "string list option"
  gm_body :: string
  gm_internalDate :: int
  gm_labelIds :: "string list"

datatype error =
    StopIteration
  | IndexError
  | ServiceError string
  | NoEmailsRetrieved
  | ContentTooLong
  | ModelError string

text \<open>\<^verbatim>\<open>next(h['value'] for h in headers if h['name'] == name)\<close>\<close>

definition header_value :: "(string \<times> string) list \<Rightarrow> string \<Rightarrow> error + string" where
  "header_value headers name =
     (case find (\<lambda>h. fst h = name) headers of None \<Rightarrow> Inl StopIteration | Some h \<Rightarrow> Inr (snd h))"

text \<open>
  \<^verbatim>\<open>if 'parts' in msg['payload']: content = msg['payload']['parts'][0]['body']['data']
  else: content = msg['payload']['body']['data']\<close>
\<close>

definition message_content :: "gmail_message \<Rightarrow> error + string" where
  "message_content msg =
     (case gm_parts msg of
        None \<Rightarrow> Inr (gm_body msg)
      | Some [] \<Rightarrow> Inl IndexError
      | Some (d # ds) \<Rightarrow> Inr d)"

text \<open>
  The \<open>Email\<close> that the loop of \<open>get_all_emails\<close> builds from one message:
  \<^verbatim>\<open>is_read='UNREAD' in msg['labelIds']\<close>
\<close>

definition email_of_listed :: "gmail_message \<Rightarrow> error + Email" where
  "email_of_listed msg =
     (case header_value (gm_headers msg) ''Subject'' of Inl e \<Rightarrow> Inl e | Inr subject \<Rightarrow>
      case header_value (gm_headers msg) ''From'' of Inl e \<Rightarrow> Inl e | Inr sender \<Rightarrow>
      case header_value (gm_headers msg) ''To'' of Inl e \<Rightarrow> Inl e | Inr recipient \<Rightarrow>
      case message_content msg of Inl e \<Rightarrow> Inl e | Inr content \<Rightarrow>
        Inr \<lparr>email_id = gm_id msg, email_subject = subject, email_sender = sender,
             email_recipient = recipient, email_content = content,
             email_timestamp = gm_internalDate msg,
             email_is_read = (''UNREAD'' \<in> set (gm_labelIds msg)),
             email_attachments = []\<rparr>)"

text \<open>
  The \<open>Email\<close> that \<open>get_email\<close> builds: \<^verbatim>\<open>is_read='UNREAD' not in msg['labelIds']\<close>.
  \<open>get_email\<close> returns \<open>None\<close> on every exception.
\<close>

definition email_of_fetched :: "gmail_message \<Rightarrow> Email option" where
  "email_of_fetched msg =
     (case header_value (gm_headers msg) ''Subject'' of Inl e \<Rightarrow> None | Inr subject \<Rightarrow>
      case header_value (gm_headers msg) ''From'' of Inl e \<Rightarrow> None | Inr sender \<Rightarrow>
      case header_value (gm_headers msg) ''To'' of Inl e \<Rightarrow> None | Inr recipient \<Rightarrow>
      case message_content msg of Inl e \<Rightarrow> None | Inr content \<Rightarrow>
        Some \<lparr>email_id = gm_id msg, email_subject = subject, email_sender = sender,
              email_recipient = recipient, email_content = content,
              email_timestamp = gm_internalDate msg,
              email_is_read = (''UNREAD'' \<notin> set (gm_labelIds msg)),
              email_attachments = []\<rparr>)"

text \<open>The loop of \<open>get_all_emails\<close> over the listed messages; an exception ends it.\<close>

fun emails_of_listed :: "gmail_message list \<Rightarrow> error + Email list" where
  "emails_of_listed [] = Inr []"
| "emails_of_listed (msg # msgs) =
     (case email_of_listed msg of
        Inl e \<Rightarrow> Inl e
      | Inr em \<Rightarrow> (case emails_of_listed msgs of Inl e \<Rightarrow> Inl e | Inr ems \<Rightarrow> Inr (em # ems)))"

text \<open>
  \<open>get_all_emails\<close>: the mail service is the function \<open>service\<close> from \<open>maxResults\<close> and the
  query to the messages it lists (each fetched in full), or to its failure.
\<close>

definition get_all_emails ::
  "(int \<Rightarrow> string \<Rightarrow> error + gmail_message list) \<Rightarrow> int \<Rightarrow> bool \<Rightarrow> error + Email list" where
  "get_all_emails service max_results unread_only =
     (let query = (if unread_only then ''is:unread'' else [])
      in case service max_results query of
           Inl e \<Rightarrow> Inl e
         | Inr msgs \<Rightarrow> emails_of_listed msgs)"

text \<open>
  \<open>summarize_emails\<close>: \<open>ai\<close> is the answer of \<open>_get_ai_response\<close> to the summary prompt
  (or its exception). The truncated copies of the emails go into the prompt only.

  \<^verbatim>\<open>return EmailSummary(total_emails=len(emails),
      unread_count=len([e for e in emails if not e.is_read]),
      recent_emails=emails, summary=summary)\<close>
\<close>

definition summarize_emails ::
  "(int \<Rightarrow> string \<Rightarrow> error + gmail_message list) \<Rightarrow> (error + string) \<Rightarrow> int \<Rightarrow> error + EmailSummary" where
  "summarize_emails service ai count =
     (case get_all_emails service count True of
        Inl e \<Rightarrow> Inl e
      | Inr emails \<Rightarrow>
          if emails = [] then Inl NoEmailsRetrieved
          else (case ai of
                  Inl e \<Rightarrow> Inl e
                | Inr summary_text \<Rightarrow>
                    Inr \<lparr>total_emails = int (length emails),
                         unread_count = int (length (filter (\<lambda>e. \<not> email_is_read e) emails)),
                         recent_emails = emails,
                         summary = summary_text\<rparr>))"

text \<open>
  A mailbox for the scenario of three unread emails: the service answers every listing
  with three messages that carry the label \<open>UNREAD\<close>.
\<close>

definition unread_message :: "string \<Rightarrow> string \<Rightarrow> gmail_message" where
  "unread_message i subject =
     \<lparr>gm_id = i,
      gm_headers = [(''Subject'', subject), (''From'', ''alice@example.com''),
                    (''To'', ''me@example.com'')],
      gm_parts = None,
      gm_body = ''aGVsbG8='',
      gm_internalDate = 1700000000000,
      gm_labelIds = [''UNREAD'', ''INBOX'']\<rparr>"

definition three_unread :: "int \<Rightarrow> string \<Rightarrow> error + gmail_message list" where
  "three_unread max_results query =
     Inr [unread_message ''m1'' ''Budget'', unread_message ''m2'' ''Lunch'',
          unread_message ''m3'' ''Release'']"

section \<open>main.py: the send flow\<close>

text \<open>
  The calls that reach the mail service are recorded in a trace.
  \<open>create_email\<close> sends and returns \<open>True\<close>, or catches the failure of the service and
  returns \<open>False\<close>; \<open>sends\<close> tells whether the service accepts the message.
\<close>

datatype service_call = SendMessage string string string

definition create_email :: "bool \<Rightarrow> string \<Rightarrow> string \<Rightarrow> string \<Rightarrow> bool \<times> service_call list" where
  "create_email sends to subject content = (sends, [SendMessage to subject content])"

text \<open>
  \<open>send_email\<close>: \<open>review\<close> is the answer of \<open>_get_ai_response\<close> to the review prompt (or its
  exception), \<open>user_choice\<close> the answer to \<^verbatim>\<open>Prompt.ask(..., choices=["y", "n"])\<close>.

  \<^verbatim>\<open>if user_choice == "y": ... result = self.tools.gmail.create_email(to, subject, content)
      ... return result
  else: return False\<close>
\<close>

definition send_email ::
  "(error + string) \<Rightarrow> string \<Rightarrow> bool \<Rightarrow> string \<Rightarrow> string \<Rightarrow> string \<Rightarrow> bool \<times> service_call list" where
  "send_email review user_choice sends to subject content =
     (case review of
        Inl e \<Rightarrow> (False, [])
      | Inr review_text \<Rightarrow>
          if user_choice = ''y'' then create_email sends to subject content
          else (False, []))"

text \<open>
  The \<open>send\<close> branch of \<open>_handle_gmail_action\<close>; the marks are the UTF-8 bytes of U+2705
  and U+274C.

  \<^verbatim>\<open>if self.send_email(...): return "## [U+2705] Email Sent Successfully"
  else: return "## [U+274C] Failed to Send Email"\<close>
\<close>

definition msg_email_sent :: string where
  "msg_email_sent = ''## '' @ [CHR 0xE2, CHR 0x9C, CHR 0x85] @ '' Email Sent Successfully''"

definition msg_failed_to_send :: string where
  "msg_failed_to_send = ''## '' @ [CHR 0xE2, CHR 0x9D, CHR 0x8C] @ '' Failed to Send Email''"

definition handle_send ::
  "(error + string) \<Rightarrow> string \<Rightarrow> bool \<Rightarrow> string \<Rightarrow> string \<Rightarrow> string \<Rightarrow> string \<times> service_call list" where
  "handle_send review user_choice sends to subject content =
     (let r = send_email review user_choice sends to subject content
      in (if fst r then msg_email_sent else msg_failed_to_send, snd r))"

section \<open>Properties of the conversation history\<close>

lemma max_history_add_message: "max_history (add_message t h r c) = max_history h"
  by (simp add: add_message_def Let_def)

lemma max_history_run_calls: "max_history (run_calls t h cs) = max_history h"
  by (induction cs arbitrary: h) (simp_all add: run_calls_def do_call_def max_history_add_message)

lemma messages_add_message_window:
  assumes "int (length (messages h)) \<le> max_history h"
  shows "messages (add_message t h r c) =
         drop (Suc (length (messages h)) - nat (max_history h)) (messages h @ [new_Message t r c])"
proof (cases "int (length (messages h)) = max_history h")
  case True
  then have "Suc (length (messages h)) - nat (max_history h) = 1" by simp
  with True show ?thesis by (simp add: add_message_def Let_def)
next
  case False
  with assms have lt: "int (length (messages h)) < max_history h" by simp
  then have "Suc (length (messages h)) - nat (max_history h) = 0" by simp
  with lt show ?thesis by (simp add: add_message_def Let_def)
qed

lemma length_add_message:
  assumes "int (length (messages h)) \<le> max_history h"
  shows "int (length (messages (add_message t h r c))) \<le> max_history h"
  using assms by (auto simp: add_message_def Let_def)

lemma drop_window:
  "drop (length (drop (length xs - n) xs) + length ys - n) (drop (length xs - n) xs @ ys) =
   drop (length xs + length ys - n) (xs @ ys)"
proof -
  have a: "drop (length xs - n) xs @ ys = drop (length xs - n) (xs @ ys)" by simp
  have b: "length (drop (length xs - n) xs) + length ys - n + (length xs - n) =
           length xs + length ys - n"
    by simp
  show ?thesis unfolding a drop_drop b ..
qed

lemma run_calls_snoc: "run_calls t h (cs @ [c]) = do_call t (run_calls t h cs) c"
  by (simp add: run_calls_def)

lemma run_calls_window:
  assumes "int (length (messages h)) \<le> max_history h"
  shows "int (length (messages (run_calls t h cs))) \<le> max_history h \<and>
         messages (run_calls t h cs) =
           drop (length (messages h @ map (call_message t) cs) - nat (max_history h))
                (messages h @ map (call_message t) cs)"
proof (induction cs rule: rev_induct)
  case Nil
  from assms show ?case by (simp add: run_calls_def)
next
  case (snoc c cs)
  let ?g = "run_calls t h cs"
  let ?all = "messages h @ map (call_message t) cs"
  let ?n = "nat (max_history h)"
  let ?m = "new_Message t (call_role c) (call_content c)"
  have mh: "max_history ?g = max_history h" by (rule max_history_run_calls)
  have len: "int (length (messages ?g)) \<le> max_history ?g"
    using conjunct1[OF snoc.IH] by (simp only: mh)
  have win: "messages ?g = drop (length ?all - ?n) ?all"
    by (rule conjunct2[OF snoc.IH])
  have step: "run_calls t h (cs @ [c]) = add_message t ?g (call_role c) (call_content c)"
    by (simp only: run_calls_snoc do_call_def)
  have "messages (run_calls t h (cs @ [c])) =
        drop (Suc (length (messages ?g)) - ?n) (messages ?g @ [?m])"
    unfolding step using messages_add_message_window[OF len] by (simp only: mh)
  also have "\<dots> = drop (length (drop (length ?all - ?n) ?all) + length [?m] - ?n)
                       (drop (length ?all - ?n) ?all @ [?m])"
    using win by simp
  also have "\<dots> = drop (length ?all + length [?m] - ?n) (?all @ [?m])"
    by (rule drop_window)
  also have "\<dots> = drop (length (messages h @ map (call_message t) (cs @ [c])) - ?n)
                       (messages h @ map (call_message t) (cs @ [c]))"
    by (simp add: call_message_def)
  finally have w: "messages (run_calls t h (cs @ [c])) =
     drop (length (messages h @ map (call_message t) (cs @ [c])) - ?n)
          (messages h @ map (call_message t) (cs @ [c]))" .
  have "int (length (messages (run_calls t h (cs @ [c])))) \<le> max_history ?g"
    unfolding step using length_add_message[OF len] .
  with w show ?case by (simp only: mh)
qed

lemma set_messages_add_message:
  "set (messages (add_message t h r c)) \<subseteq> insert (new_Message t r c) (set (messages h))"
proof -
  have "set (drop 1 (messages h @ [new_Message t r c])) \<subseteq> set (messages h @ [new_Message t r c])"
    by (rule set_drop_subset)
  then show ?thesis by (auto simp: add_message_def Let_def)
qed

lemma timestamps_run_calls:
  assumes "\<forall>m \<in> set (messages h). msg_timestamp m = t0"
  shows "\<forall>m \<in> set (messages (run_calls t0 h cs)). msg_timestamp m = t0"
  using assms
proof (induction cs arbitrary: h)
  case Nil
  then show ?case by (simp add: run_calls_def)
next
  case (Cons c cs)
  let ?h1 = "add_message t0 h (call_role c) (call_content c)"
  have "\<forall>m \<in> set (messages ?h1). msg_timestamp m = t0"
  proof
    fix m assume "m \<in> set (messages ?h1)"
    then have "m = new_Message t0 (call_role c) (call_content c) \<or> m \<in> set (messages h)"
      using set_messages_add_message[of t0 h "call_role c" "call_content c"] by auto
    then show "msg_timestamp m = t0"
      using Cons.prems by (auto simp: new_Message_def)
  qed
  from Cons.IH[OF this] show ?case by (simp add: run_calls_def do_call_def)
qed

section \<open>Claims about the conversation history\<close>

text \<open>
  C5. For every sequence of \<open>add_message\<close> calls on a history that starts within its
  capacity (the history the agent creates is empty, with capacity 10): after the calls the
  number of stored messages is at most \<open>max_history\<close>, and the stored messages are the
  last \<open>max_history\<close> of all messages in their order of arrival, so the oldest are evicted
  first. One call on a full history drops exactly the first message of the sequence and
  keeps the order of the rest; one call on a history with room appends only.
\<close>

theorem add_message_bounded_fifo:
  assumes "int (length (messages h)) \<le> max_history h"
  shows "int (length (messages (run_calls t h cs))) \<le> max_history (run_calls t h cs)
       \<and> max_history (run_calls t h cs) = max_history h
       \<and> messages (run_calls t h cs) =
           drop (length (messages h @ map (call_message t) cs) - nat (max_history h))
                (messages h @ map (call_message t) cs)
       \<and> (if int (length (messages h)) + 1 > max_history h
          then messages (add_message t h r c) = drop 1 (messages h @ [new_Message t r c])
          else messages (add_message t h r c) = messages h @ [new_Message t r c])"
proof -
  have a: "max_history (run_calls t h cs) = max_history h" by (rule max_history_run_calls)
  have b: "int (length (messages (run_calls t h cs))) \<le> max_history h"
    by (rule conjunct1[OF run_calls_window[OF assms]])
  have c: "messages (run_calls t h cs) =
           drop (length (messages h @ map (call_message t) cs) - nat (max_history h))
                (messages h @ map (call_message t) cs)"
    by (rule conjunct2[OF run_calls_window[OF assms]])
  have d: "(if int (length (messages h)) + 1 > max_history h
          then messages (add_message t h r c) = drop 1 (messages h @ [new_Message t r c])
          else messages (add_message t h r c) = messages h @ [new_Message t r c])"
    by (simp add: add_message_def Let_def)
  from a b c d show ?thesis by (simp only: simp_thms)
qed

theorem add_message_bounded_fifo_witness:
  "int (length (messages \<lparr>messages = [], max_history = 2\<rparr>)) \<le> max_history \<lparr>messages = [], max_history = 2\<rparr>
   \<and> messages (run_calls 0 \<lparr>messages = [], max_history = 2\<rparr>
        [\<lparr>call_time = 1, call_role = ''user'', call_content = ''a''\<rparr>,
         \<lparr>call_time = 2, call_role = ''assistant'', call_content = ''b''\<rparr>,
         \<lparr>call_time = 3, call_role = ''user'', call_content = ''c''\<rparr>])
     = [new_Message 0 ''assistant'' ''b'', new_Message 0 ''user'' ''c'']"
proof -
  let ?h = "\<lparr>messages = [], max_history = 2\<rparr>"
  have h: "int (length (messages ?h)) \<le> max_history ?h" by simp
  from add_message_bounded_fifo[OF h, of 0
        "[\<lparr>call_time = 1, call_role = ''user'', call_content = ''a''\<rparr>,
         \<lparr>call_time = 2, call_role = ''assistant'', call_content = ''b''\<rparr>,
         \<lparr>call_time = 3, call_role = ''user'', call_content = ''c''\<rparr>]" "''x''" "''y''"]
  show ?thesis by (simp add: call_message_def)
qed

text \<open>
  C10. The timestamp of a \<open>Message\<close> defaults to the one value computed when the class was
  defined, and \<open>add_message\<close> passes no timestamp: after any sequence of calls, made at any
  times, on a history whose messages carry that value (the empty history for one), every
  stored message carries that same value, so timestamps do not tell two messages apart.
\<close>

theorem add_message_timestamp_fixed:
  assumes "\<forall>m \<in> set (messages h). msg_timestamp m = class_time"
  shows "(\<forall>m \<in> set (messages (run_calls class_time h cs)). msg_timestamp m = class_time)
       \<and> (\<forall>m1 \<in> set (messages (run_calls class_time h cs)).
            \<forall>m2 \<in> set (messages (run_calls class_time h cs)). msg_timestamp m1 = msg_timestamp m2)"
  using timestamps_run_calls[OF assms, of cs] by simp

theorem add_message_timestamp_fixed_witness:
  "messages new_ConversationHistory = []
   \<and> length (messages (run_calls 1000 new_ConversationHistory
        [\<lparr>call_time = 2000, call_role = ''user'', call_content = ''hello''\<rparr>,
         \<lparr>call_time = 9000, call_role = ''assistant'', call_content = ''hi''\<rparr>])) = 2
   \<and> msg_timestamp (messages (run_calls 1000 new_ConversationHistory
        [\<lparr>call_time = 2000, call_role = ''user'', call_content = ''hello''\<rparr>,
         \<lparr>call_time = 9000, call_role = ''assistant'', call_content = ''hi''\<rparr>]) ! 0) = 1000
   \<and> msg_timestamp (messages (run_calls 1000 new_ConversationHistory
        [\<lparr>call_time = 2000, call_role = ''user'', call_content = ''hello''\<rparr>,
         \<lparr>call_time = 9000, call_role = ''assistant'', call_content = ''hi''\<rparr>]) ! 1) = 1000"
proof -
  let ?cs = "[\<lparr>call_time = 2000, call_role = ''user'', call_content = ''hello''\<rparr>,
              \<lparr>call_time = 9000, call_role = ''assistant'', call_content = ''hi''\<rparr>]"
  let ?ms = "messages (run_calls 1000 new_ConversationHistory ?cs)"
  have e: "messages new_ConversationHistory = []"
    by (simp add: new_ConversationHistory_def)
  then have h: "\<forall>m \<in> set (messages new_ConversationHistory). msg_timestamp m = 1000"
    by simp
  have l: "length ?ms = 2"
    by (simp add: run_calls_def do_call_def add_message_def new_ConversationHistory_def Let_def)
  then have "?ms ! 0 \<in> set ?ms" and "?ms ! 1 \<in> set ?ms"
    by (simp_all only: nth_mem)
  with conjunct1[OF add_message_timestamp_fixed[OF h, of ?cs]]
  have "msg_timestamp (?ms ! 0) = 1000" and "msg_timestamp (?ms ! 1) = 1000"
    by blast+
  with e l show ?thesis by (simp only: simp_thms)
qed

section \<open>Properties of the search for free slots\<close>

lemma zip_snoc2:
  "length xs = length ys \<Longrightarrow> zip (xs @ [x]) (ys @ [y]) = zip xs ys @ [(x, y)]"
  by simp

lemma slot_step_eq:
  "slot_step d (sl, cur) e =
     (sl @ map (\<lambda>p. (fst p, fst p + d * 60))
             (filter (\<lambda>p. snd p - fst p \<ge> d * 60) [(cur, ev_start e)]),
      ev_end e)"
  by (simp add: slot_step_def Let_def)

lemma slot_final_eq:
  "slot_final d end_time (sl, cur) =
     sl @ map (\<lambda>p. (fst p, fst p + d * 60))
            (filter (\<lambda>p. snd p - fst p \<ge> d * 60) [(cur, end_time)])"
  by (simp add: slot_final_def Let_def)

lemma foldl_slot_step:
  "foldl (slot_step d) (sl, cur) es =
     (sl @ map (\<lambda>p. (fst p, fst p + d * 60))
             (filter (\<lambda>p. snd p - fst p \<ge> d * 60)
                     (zip (cur # map ev_end es) (map ev_start es))),
      last (cur # map ev_end es))"
proof (induction es arbitrary: sl cur)
  case Nil
  show ?case by simp
next
  case (Cons e es)
  have "foldl (slot_step d) (sl, cur) (e # es) =
        foldl (slot_step d) (slot_step d (sl, cur) e) es" by simp
  also have "\<dots> = foldl (slot_step d)
       (sl @ map (\<lambda>p. (fst p, fst p + d * 60))
               (filter (\<lambda>p. snd p - fst p \<ge> d * 60) [(cur, ev_start e)]), ev_end e) es"
    by (simp only: slot_step_eq)
  finally show ?case
    by (simp add: Cons.IH)
qed

lemma zip_cursors_bounds:
  "zip (cur # map ev_end es) (map ev_start es @ [end_time]) =
   zip (cur # map ev_end es) (map ev_start es) @ [(last (cur # map ev_end es), end_time)]"
proof (induction es arbitrary: cur)
  case Nil
  show ?case by simp
next
  case (Cons e es)
  from Cons.IH[of "ev_end e"] show ?case by simp
qed

lemma free_slots_closed_form:
  "free_slots start_time end_time d events =
     map (\<lambda>p. (fst p, fst p + d * 60))
       (filter (\<lambda>p. snd p - fst p \<ge> d * 60)
          (zip (start_time # map ev_end (sort_key ev_start events))
               (map ev_start (sort_key ev_start events) @ [end_time])))"
  by (simp only: free_slots_def foldl_slot_step slot_final_eq zip_cursors_bounds
        filter_append map_append append_Nil)

lemma cursor_trace_eq: "cursor_trace d (sl, cur) es = cur # map ev_end es"
  by (induction es arbitrary: sl cur) (simp_all add: slot_step_def Let_def)

lemma cursor_trace_last:
  "last (cursor_trace d (sl, cur) es) = snd (foldl (slot_step d) (sl, cur) es)"
  by (simp only: cursor_trace_eq foldl_slot_step snd_conv)

section \<open>Claims about the search for free slots\<close>

text \<open>
  C2. With the events 10:00 to 10:30 and 11:00 to 12:00, the range 09:00 to 13:00 and a
  duration of 30 minutes, \<open>check_availability\<close> returns exactly the slots 09:00 to 09:30,
  10:30 to 11:00 and 12:00 to 12:30 (each rendered by the date format). In general the
  cursor is the start of the range before the first event and the end of the previous
  event after it; the cursor is paired with the start of the next event, or with the end of
  the range after the last event; a slot is emitted for a pair exactly when the gap between
  the two is at least the duration, and the slot starts at the cursor and lasts exactly
  the duration.
\<close>

theorem check_availability_slots:
  "check_availability fmt (hm 9 0) (hm 13 0) 30
     [\<lparr>ev_start = hm 10 0, ev_end = hm 10 30\<rparr>, \<lparr>ev_start = hm 11 0, ev_end = hm 12 0\<rparr>]
   = [(fmt (hm 9 0), fmt (hm 9 30)), (fmt (hm 10 30), fmt (hm 11 0)),
      (fmt (hm 12 0), fmt (hm 12 30))]
   \<and> free_slots start_time end_time d events =
       map (\<lambda>p. (fst p, fst p + d * 60))
         (filter (\<lambda>p. snd p - fst p \<ge> d * 60)
            (zip (start_time # map ev_end (sort_key ev_start events))
                 (map ev_start (sort_key ev_start events) @ [end_time])))
   \<and> check_availability fmt start_time end_time d events =
       map (\<lambda>sl. (fmt (fst sl), fmt (snd sl))) (free_slots start_time end_time d events)"
proof -
  have a: "check_availability fmt (hm 9 0) (hm 13 0) 30
     [\<lparr>ev_start = hm 10 0, ev_end = hm 10 30\<rparr>, \<lparr>ev_start = hm 11 0, ev_end = hm 12 0\<rparr>]
   = [(fmt (hm 9 0), fmt (hm 9 30)), (fmt (hm 10 30), fmt (hm 11 0)),
      (fmt (hm 12 0), fmt (hm 12 30))]"
    by (simp add: check_availability_def free_slots_def slot_step_def slot_final_def hm_def Let_def)
  show ?thesis
    using a free_slots_closed_form[of start_time end_time d events]
    by (simp only: check_availability_def simp_thms)
qed

text \<open>
  C3. The loop sets the cursor to the end of each event, whatever the cursor was. With
  the events 10:00 to 12:00 and 10:30 to 11:00, sorted by start, in the range 09:00 to
  13:00 and a duration of 30 minutes, the cursor goes from 12:00 back to 11:00, and the
  slot 11:00 to 11:30 is returned although it lies inside the first event.
\<close>

theorem check_availability_cursor_goes_back:
  "sorted (map ev_start
     [\<lparr>ev_start = hm 10 0, ev_end = hm 12 0\<rparr>, \<lparr>ev_start = hm 10 30, ev_end = hm 11 0\<rparr>])
   \<and> cursor_trace 30 ([], hm 9 0)
       [\<lparr>ev_start = hm 10 0, ev_end = hm 12 0\<rparr>, \<lparr>ev_start = hm 10 30, ev_end = hm 11 0\<rparr>]
     = [hm 9 0, hm 12 0, hm 11 0]
   \<and> hm 11 0 < hm 12 0
   \<and> free_slots (hm 9 0) (hm 13 0) 30
       [\<lparr>ev_start = hm 10 0, ev_end = hm 12 0\<rparr>, \<lparr>ev_start = hm 10 30, ev_end = hm 11 0\<rparr>]
     = [(hm 9 0, hm 9 30), (hm 11 0, hm 11 30)]
   \<and> overlaps (hm 11 0, hm 11 30) \<lparr>ev_start = hm 10 0, ev_end = hm 12 0\<rparr>"
  by (simp add: free_slots_def slot_step_def slot_final_def hm_def overlaps_def Let_def)

section \<open>Properties of the string functions\<close>

lemma startswith_prefix: "startswith s p \<longleftrightarrow> prefix p s"
  by (induction s p rule: startswith.induct) auto

lemma py_in_sublist: "py_in p s \<longleftrightarrow> sublist p s"
  by (induction s) (simp_all add: startswith_prefix sublist_Cons_right)

lemma any_in_iff: "any_in ps s \<longleftrightarrow> (\<exists>p \<in> set ps. py_in p s)"
  by (simp add: any_in_def list_ex_iff)

section \<open>Properties of the classifiers\<close>

lemma extract_entities_eq:
  "extract_entities es params ents =
     (\<lambda>k. if k \<in> set es \<and> params k \<noteq> None then params k else ents k)"
proof (induction es arbitrary: ents)
  case Nil
  show ?case by simp
next
  case (Cons e es)
  show ?case
  proof (cases "params e")
    case None
    then show ?thesis by (auto simp: Cons.IH fun_eq_iff)
  next
    case (Some v)
    then show ?thesis by (auto simp: Cons.IH fun_eq_iff)
  qed
qed

lemma detect_loop_first_hit:
  "detect_loop table intent params ents =
     (case first_hit table intent of
        None \<Rightarrow> None
      | Some ci \<Rightarrow>
          if \<exists>r \<in> set (required (snd ci)).
               extract_entities (entities (snd ci)) params ents r = None
          then None
          else Some (fst ci, extract_entities (entities (snd ci)) params ents))"
proof (induction table)
  case Nil
  show ?case by (simp add: first_hit_def)
next
  case (Cons ci table)
  obtain category info where ci: "ci = (category, info)" by (cases ci)
  show ?case
  proof (cases "indicator_hit intent info")
    case True
    then show ?thesis
      by (simp add: ci first_hit_def Let_def filter_empty_conv)
  next
    case False
    with Cons.IH show ?thesis by (simp add: ci first_hit_def)
  qed
qed

text \<open>A table is well formed when every required entity is among the entities extracted.\<close>

lemma detect_loop_required:
  assumes "\<forall>ci \<in> set table. set (required (snd ci)) \<subseteq> set (entities (snd ci))"
  shows "detect_loop table intent params Map.empty =
     (case first_hit table intent of
        None \<Rightarrow> None
      | Some ci \<Rightarrow>
          if set (required (snd ci)) \<subseteq> dom params
          then Some (fst ci, extract_entities (entities (snd ci)) params Map.empty)
          else None)"
proof (cases "first_hit table intent")
  case None
  then show ?thesis by (simp add: detect_loop_first_hit)
next
  case (Some ci)
  then have "ci \<in> set table"
    by (auto simp: first_hit_def find_Some_iff)
  with assms have sub: "set (required (snd ci)) \<subseteq> set (entities (snd ci))" by blast
  have "(\<exists>r \<in> set (required (snd ci)).
           extract_entities (entities (snd ci)) params Map.empty r = None)
        \<longleftrightarrow> \<not> set (required (snd ci)) \<subseteq> dom params"
    using sub by (auto simp: extract_entities_eq dom_def)
  with Some show ?thesis by (simp add: detect_loop_first_hit)
qed

lemma gmail_table_ok:
  "\<forall>ci \<in> set gmail_intent_categories. set (required (snd ci)) \<subseteq> set (entities (snd ci))"
  by (simp add: gmail_intent_categories_def)

lemma calendar_table_ok:
  "\<forall>ci \<in> set calendar_intent_categories. set (required (snd ci)) \<subseteq> set (entities (snd ci))"
  by (simp add: calendar_intent_categories_def)

lemma gmail_names_distinct: "distinct (map fst gmail_intent_categories)"
  by (simp add: gmail_intent_categories_def)

lemma calendar_names_distinct: "distinct (map fst calendar_intent_categories)"
  by (simp add: calendar_intent_categories_def)

lemma first_hit_mem: "first_hit table intent = Some ci \<Longrightarrow> ci \<in> set table"
  by (auto simp: first_hit_def find_Some_iff)

lemma detect_loop_law:
  assumes ok: "\<forall>ci \<in> set table. set (required (snd ci)) \<subseteq> set (entities (snd ci))"
    and dist: "distinct (map fst table)"
  shows "(detect_loop table intent params Map.empty = Some (cat, ents) \<longrightarrow>
            (\<forall>info. (cat, info) \<in> set table \<longrightarrow> set (required info) \<subseteq> dom params))
       \<and> (first_hit table intent = Some (cat', info') \<and> \<not> set (required info') \<subseteq> dom params
            \<longrightarrow> detect_loop table intent params Map.empty = None)"
proof (intro conjI impI allI)
  fix info
  assume d: "detect_loop table intent params Map.empty = Some (cat, ents)"
    and m: "(cat, info) \<in> set table"
  from d obtain ci where fh: "first_hit table intent = Some ci"
    and c: "fst ci = cat" and r: "set (required (snd ci)) \<subseteq> dom params"
    by (auto simp: detect_loop_required[OF ok] split: option.splits if_splits)
  from first_hit_mem[OF fh] c have "(cat, snd ci) \<in> set table" by (cases ci) auto
  with m dist have "info = snd ci"
    by (meson eq_key_imp_eq_value)
  with r show "set (required info) \<subseteq> dom params" by simp
next
  assume "first_hit table intent = Some (cat', info') \<and> \<not> set (required info') \<subseteq> dom params"
  then show "detect_loop table intent params Map.empty = None"
    by (simp add: detect_loop_required[OF ok])
qed

section \<open>Claims about the classifiers and the dispatcher\<close>

text \<open>
  C4. For both classifiers and every intent and parameters: when a category is returned,
  all of its required entities are keys of the parameters, so a category with a missing
  required entity is never returned; and when the first category with an indicator in the
  intent has a required entity that the parameters lack, the call returns no category:
  the categories after it are not tried.
\<close>

theorem classifier_required_entities:
  "(detect_gmail_intent intent params = Some (cat, ents) \<longrightarrow>
      (\<forall>info. (cat, info) \<in> set gmail_intent_categories \<longrightarrow> set (required info) \<subseteq> dom params))
   \<and> (first_hit gmail_intent_categories intent = Some (cat', info')
        \<and> \<not> set (required info') \<subseteq> dom params
      \<longrightarrow> detect_gmail_intent intent params = None)
   \<and> (detect_calendar_intent intent params = Some (cat, ents) \<longrightarrow>
      (\<forall>info. (cat, info) \<in> set calendar_intent_categories \<longrightarrow> set (required info) \<subseteq> dom params))
   \<and> (first_hit calendar_intent_categories intent = Some (cat', info')
        \<and> \<not> set (required info') \<subseteq> dom params
      \<longrightarrow> detect_calendar_intent intent params = None)"
proof -
  note g = detect_loop_law[OF gmail_table_ok gmail_names_distinct,
      of intent params cat ents cat' info']
  note c = detect_loop_law[OF calendar_table_ok calendar_names_distinct,
      of intent params cat ents cat' info']
  show ?thesis
    unfolding detect_gmail_intent_def detect_calendar_intent_def
    by (rule conjI[OF conjunct1[OF g] conjI[OF conjunct2[OF g] c]])
qed

theorem classifier_required_entities_witness:
  "first_hit gmail_intent_categories ''Send an email to Bob'' = Some (gmail_intent_categories ! 1)
   \<and> \<not> set (required (snd (gmail_intent_categories ! 1))) \<subseteq> dom [''to'' \<mapsto> JStr ''bob@example.com'']
   \<and> detect_gmail_intent ''Send an email to Bob'' [''to'' \<mapsto> JStr ''bob@example.com''] = None
   \<and> first_hit calendar_intent_categories ''When am I free tomorrow''
        = Some (calendar_intent_categories ! 2)
   \<and> \<not> set (required (snd (calendar_intent_categories ! 2)))
          \<subseteq> dom [''start_date'' \<mapsto> JStr ''2024-05-11'', ''end_date'' \<mapsto> JStr ''2024-05-12'']
   \<and> detect_calendar_intent ''When am I free tomorrow''
        [''start_date'' \<mapsto> JStr ''2024-05-11'', ''end_date'' \<mapsto> JStr ''2024-05-12''] = None
   \<and> map_option fst (detect_calendar_intent ''Schedule a meeting''
        [''event_title'' \<mapsto> JStr ''Sync'', ''start_date'' \<mapsto> JStr ''2024-05-11''])
        = Some ''create''
   \<and> set (required (snd (calendar_intent_categories ! 0)))
        \<subseteq> dom [''event_title'' \<mapsto> JStr ''Sync'', ''start_date'' \<mapsto> JStr ''2024-05-11'']"
proof -
  let ?P1 = "[''to'' \<mapsto> JStr ''bob@example.com'']"
  let ?P2 = "[''start_date'' \<mapsto> JStr ''2024-05-11'', ''end_date'' \<mapsto> JStr ''2024-05-12'']"
  let ?P3 = "[''event_title'' \<mapsto> JStr ''Sync'', ''start_date'' \<mapsto> JStr ''2024-05-11'']"
  have l1: "lower ''Send an email to Bob'' = ''send an email to bob''"
    by (simp add: lower_def lower_char_def)
  have l2: "lower ''When am I free tomorrow'' = ''when am i free tomorrow''"
    by (simp add: lower_def lower_char_def)
  have l3: "lower ''Schedule a meeting'' = ''schedule a meeting''"
    by (simp add: lower_def lower_char_def)
  have f1: "first_hit gmail_intent_categories ''Send an email to Bob''
            = Some (gmail_intent_categories ! 1)"
    by (simp add: first_hit_def gmail_intent_categories_def indicator_hit_def any_in_def l1)
  have f2: "first_hit calendar_intent_categories ''When am I free tomorrow''
            = Some (calendar_intent_categories ! 2)"
    by (simp add: first_hit_def calendar_intent_categories_def indicator_hit_def any_in_def l2)
  have f3: "first_hit calendar_intent_categories ''Schedule a meeting''
            = Some (calendar_intent_categories ! 0)"
    by (simp add: first_hit_def calendar_intent_categories_def indicator_hit_def any_in_def l3)
  have m1: "\<not> set (required (snd (gmail_intent_categories ! 1))) \<subseteq> dom ?P1"
    by (simp add: gmail_intent_categories_def)
  have m2: "\<not> set (required (snd (calendar_intent_categories ! 2))) \<subseteq> dom ?P2"
    by (simp add: calendar_intent_categories_def)
  have m3: "set (required (snd (calendar_intent_categories ! 0))) \<subseteq> dom ?P3"
    by (simp add: calendar_intent_categories_def)
  have c0: "calendar_intent_categories ! 0 = (''create'', snd (calendar_intent_categories ! 0))"
    by (simp add: calendar_intent_categories_def)
  have d3: "detect_calendar_intent ''Schedule a meeting'' ?P3 =
        Some (''create'',
              extract_entities (entities (snd (calendar_intent_categories ! 0))) ?P3 Map.empty)"
    unfolding detect_calendar_intent_def detect_loop_required[OF calendar_table_ok] f3
    using m3 c0 by (simp del: fun_upd_apply) (metis fst_conv)
  have mem: "(''create'', snd (calendar_intent_categories ! 0)) \<in> set calendar_intent_categories"
    by (simp add: calendar_intent_categories_def)
  note T1 = classifier_required_entities[of "''Send an email to Bob''" ?P1 "''send''" Map.empty
      "fst (gmail_intent_categories ! 1)" "snd (gmail_intent_categories ! 1)"]
  note T2 = classifier_required_entities[of "''When am I free tomorrow''" ?P2 "''availability''"
      Map.empty "fst (calendar_intent_categories ! 2)" "snd (calendar_intent_categories ! 2)"]
  note T3 = classifier_required_entities[of "''Schedule a meeting''" ?P3 "''create''"
      "extract_entities (entities (snd (calendar_intent_categories ! 0))) ?P3 Map.empty"
      "''x''" "snd (calendar_intent_categories ! 0)"]
  have r1: "detect_gmail_intent ''Send an email to Bob'' ?P1 = None"
    using conjunct1[OF conjunct2[OF T1]] f1 m1 by simp
  have r2: "detect_calendar_intent ''When am I free tomorrow'' ?P2 = None"
    using conjunct2[OF conjunct2[OF conjunct2[OF T2]]] f2 m2 by simp
  have r3: "set (required (snd (calendar_intent_categories ! 0))) \<subseteq> dom ?P3"
    using conjunct1[OF conjunct2[OF conjunct2[OF T3]]] d3 mem by blast
  have r4: "map_option fst (detect_calendar_intent ''Schedule a meeting'' ?P3) = Some ''create''"
    by (simp only: d3 option.map fst_conv)
  from f1 m1 r1 f2 m2 r2 r4 r3 show ?thesis by (simp only: simp_thms)
qed

section \<open>Claims about the dispatcher\<close>

lemma email_patterns_lower: "\<forall>k \<in> set email_intent_patterns. lower k = k"
  by (simp add: email_intent_patterns_def lower_def lower_char_def)

lemma calendar_patterns_lower: "\<forall>k \<in> set calendar_intent_patterns. lower k = k"
  by (simp add: calendar_intent_patterns_def lower_def lower_char_def)

lemma any_in_email_iff:
  "any_in email_intent_patterns s \<longleftrightarrow> (\<exists>k \<in> set email_intent_patterns. py_in (lower k) s)"
  using email_patterns_lower by (auto simp: any_in_iff)

lemma any_in_calendar_iff:
  "any_in calendar_intent_patterns s \<longleftrightarrow> (\<exists>k \<in> set calendar_intent_patterns. py_in (lower k) s)"
  using calendar_patterns_lower by (auto simp: any_in_iff)

text \<open>
  C6. An intent that contains, whatever the case of its letters, a keyword of the email
  set is routed to the email handler, also when it contains a keyword of the calendar set;
  the calendar handler is chosen only when no email keyword occurs; when no keyword of
  either set occurs, the request goes to the general answer of the model.
\<close>

theorem email_domain_precedence:
  "((\<exists>k \<in> set email_intent_patterns. py_in (lower k) (lower intent))
      \<and> (\<exists>k \<in> set calendar_intent_patterns. py_in (lower k) (lower intent))
     \<longrightarrow> select_route intent = GmailAction \<and> select_route intent \<noteq> CalendarAction)
   \<and> (select_route intent = CalendarAction
     \<longrightarrow> \<not> (\<exists>k \<in> set email_intent_patterns. py_in (lower k) (lower intent)))
   \<and> (\<not> (\<exists>k \<in> set email_intent_patterns. py_in (lower k) (lower intent))
      \<and> \<not> (\<exists>k \<in> set calendar_intent_patterns. py_in (lower k) (lower intent))
     \<longrightarrow> select_route intent = GeneralResponse)"
  unfolding any_in_email_iff[symmetric] any_in_calendar_iff[symmetric]
  by (simp add: select_route_def Let_def)

theorem email_domain_precedence_witness:
  "''email'' \<in> set email_intent_patterns
   \<and> py_in (lower ''email'') (lower ''Email me the Meeting schedule'')
   \<and> ''meeting'' \<in> set calendar_intent_patterns
   \<and> py_in (lower ''meeting'') (lower ''Email me the Meeting schedule'')
   \<and> select_route ''Email me the Meeting schedule'' = GmailAction
   \<and> \<not> any_in email_intent_patterns (lower ''Who wrote Hamlet'')
   \<and> \<not> any_in calendar_intent_patterns (lower ''Who wrote Hamlet'')
   \<and> select_route ''Who wrote Hamlet'' = GeneralResponse
   \<and> select_route ''Book a table for Friday'' = CalendarAction
   \<and> \<not> any_in email_intent_patterns (lower ''Book a table for Friday'')"
proof -
  let ?X = "''Email me the Meeting schedule''"
  let ?Y = "''Who wrote Hamlet''"
  let ?Z = "''Book a table for Friday''"
  have lx: "lower ?X = ''email me the meeting schedule''"
    by (simp add: lower_def lower_char_def)
  have ly: "lower ?Y = ''who wrote hamlet''"
    by (simp add: lower_def lower_char_def)
  have lz: "lower ?Z = ''book a table for friday''"
    by (simp add: lower_def lower_char_def)
  have le: "lower ''email'' = ''email''" and lm: "lower ''meeting'' = ''meeting''"
    by (simp_all add: lower_def lower_char_def)
  have e1: "''email'' \<in> set email_intent_patterns" by (simp add: email_intent_patterns_def)
  have e2: "py_in (lower ''email'') (lower ?X)" by (simp add: lx le)
  have c1: "''meeting'' \<in> set calendar_intent_patterns"
    by (simp add: calendar_intent_patterns_def)
  have c2: "py_in (lower ''meeting'') (lower ?X)" by (simp add: lx lm)
  have n1: "\<not> any_in email_intent_patterns (lower ?Y)"
    by (simp add: ly any_in_def email_intent_patterns_def)
  have n2: "\<not> any_in calendar_intent_patterns (lower ?Y)"
    by (simp add: ly any_in_def calendar_intent_patterns_def)
  have z1: "select_route ?Z = CalendarAction"
    by (simp add: select_route_def lz any_in_def email_intent_patterns_def
          calendar_intent_patterns_def)
  have r1: "select_route ?X = GmailAction"
    using conjunct1[OF email_domain_precedence[of ?X]] e1 e2 c1 c2 by blast
  have r2: "select_route ?Y = GeneralResponse"
    using conjunct2[OF conjunct2[OF email_domain_precedence[of ?Y]]] n1 n2
    by (simp only: any_in_email_iff any_in_calendar_iff simp_thms)
  have r3: "\<not> any_in email_intent_patterns (lower ?Z)"
    using conjunct1[OF conjunct2[OF email_domain_precedence[of ?Z]]] z1
    by (simp only: any_in_email_iff simp_thms)
  from e1 e2 c1 c2 r1 n1 n2 r2 z1 r3 show ?thesis by (simp only: simp_thms)
qed

section \<open>Claims about the event listing\<close>

lemma calendar_list_args_absent:
  "calendar_list_args strftime_ymd now Map.empty =
     \<lparr>arg_start_date = JStr (strftime_ymd now),
      arg_end_date = JStr (strftime_ymd (now + 604800)),
      arg_max_results = JNum 5\<rparr>"
  by (simp add: calendar_list_args_def py_get_def py_get_default_def timedelta_days_def Let_def)

text \<open>
  C7. With no entity at all, the listing starts at the current date, ends 7 days after
  it and asks for 5 events. With the start date 2030-01-01 supplied and no end date, the
  start is the supplied one, and the end is still the current date plus 7 days, whatever
  the current date is: it is not computed from the supplied start.
\<close>

theorem calendar_list_end_date_from_now:
  "calendar_list_args strftime_ymd now Map.empty =
     \<lparr>arg_start_date = JStr (strftime_ymd now),
      arg_end_date = JStr (strftime_ymd (now + 604800)),
      arg_max_results = JNum 5\<rparr>
   \<and> calendar_list_args strftime_ymd now [''start_date'' \<mapsto> JStr ''2030-01-01''] =
     \<lparr>arg_start_date = JStr ''2030-01-01'',
      arg_end_date = JStr (strftime_ymd (now + 604800)),
      arg_max_results = JNum 5\<rparr>"
  by (simp add: calendar_list_args_def py_get_def py_get_default_def timedelta_days_def Let_def)

section \<open>Claims about the summary of emails\<close>

lemma email_of_listed_is_read:
  "email_of_listed msg = Inr em \<Longrightarrow> email_is_read em = (''UNREAD'' \<in> set (gm_labelIds msg))"
  by (auto simp: email_of_listed_def split: sum.splits)

lemma emails_of_listed_all_read:
  "emails_of_listed msgs = Inr ems \<Longrightarrow> \<forall>m \<in> set msgs. ''UNREAD'' \<in> set (gm_labelIds m)
   \<Longrightarrow> length ems = length msgs \<and> filter (\<lambda>e. \<not> email_is_read e) ems = []"
proof (induction msgs arbitrary: ems)
  case Nil
  then show ?case by simp
next
  case (Cons msg msgs)
  from Cons.prems(1) obtain em ems' where
    em: "email_of_listed msg = Inr em" and ems': "emails_of_listed msgs = Inr ems'"
    and eq: "ems = em # ems'"
    by (auto split: sum.splits)
  from Cons.IH[OF ems'] Cons.prems(2)
  have "length ems' = length msgs \<and> filter (\<lambda>e. \<not> email_is_read e) ems' = []" by simp
  moreover have "email_is_read em"
    using email_of_listed_is_read[OF em] Cons.prems(2) by simp
  ultimately show ?case by (simp add: eq)
qed

text \<open>
  Whenever the service answers the query \<open>is:unread\<close> with messages that all carry the
  label \<open>UNREAD\<close>, a summary that is returned counts no unread email.
\<close>

lemma summarize_emails_unread_count:
  assumes "service count ''is:unread'' = Inr msgs"
    and "\<forall>m \<in> set msgs. ''UNREAD'' \<in> set (gm_labelIds m)"
    and "summarize_emails service ai count = Inr s"
  shows "total_emails s = int (length msgs) \<and> unread_count s = 0"
proof -
  from assms(1,3) obtain ems where ems: "emails_of_listed msgs = Inr ems"
    by (auto simp: summarize_emails_def get_all_emails_def split: sum.splits if_splits)
  from emails_of_listed_all_read[OF ems assms(2)] assms(1,3) ems show ?thesis
    by (auto simp: summarize_emails_def get_all_emails_def split: sum.splits if_splits)
qed

text \<open>
  C1. With a service that returns three unread messages for the request of 3 unread
  emails, \<open>summarize_emails\<close> returns a summary with \<open>total_emails = 3\<close> and the text of the
  model, and with \<open>unread_count = 0\<close>: \<open>get_all_emails\<close> sets \<open>is_read\<close> to true on a message
  that carries the label \<open>UNREAD\<close>. \<open>get_email\<close> sets it to false on the same message.
\<close>

theorem summarize_emails_three_unread:
  "map_sum id total_emails (summarize_emails three_unread (Inr ''Three new emails.'') 3) = Inr 3
   \<and> map_sum id unread_count (summarize_emails three_unread (Inr ''Three new emails.'') 3) = Inr 0
   \<and> map_sum id summary (summarize_emails three_unread (Inr ''Three new emails.'') 3)
       = Inr ''Three new emails.''
   \<and> map_sum id (map email_is_read) (get_all_emails three_unread 3 True)
       = Inr [True, True, True]
   \<and> map_option email_is_read (email_of_fetched (unread_message ''m1'' ''Budget'')) = Some False"
  by (simp add: summarize_emails_def get_all_emails_def three_unread_def unread_message_def
        email_of_listed_def email_of_fetched_def header_value_def message_content_def)

section \<open>Claims about the send flow\<close>

text \<open>
  C8, as the claim states it, fails: the answer \<open>n\<close> gives the handler's text for a failed
  send, the same text as an accepted send that the service fails.
\<close>

theorem send_cancel_reported_as_failure:
  "handle_send (Inr ''Looks fine.'') ''n'' True ''bob@example.com'' ''Hi'' ''Hello Bob''
     = (msg_failed_to_send, [])
   \<and> handle_send (Inr ''Looks fine.'') ''y'' False ''bob@example.com'' ''Hi'' ''Hello Bob''
     = (msg_failed_to_send, [SendMessage ''bob@example.com'' ''Hi'' ''Hello Bob''])
   \<and> msg_failed_to_send \<noteq> msg_email_sent"
  by (simp add: handle_send_def send_email_def create_email_def msg_failed_to_send_def
        msg_email_sent_def)

text \<open>
  C8, amended. Whenever the answer is not \<open>y\<close>, no call reaches the mail service,
  \<open>send_email\<close> returns false and the handler answers with its text for a failed send;
  a call reaches the service only when the answer is \<open>y\<close> and the review was obtained, and
  then exactly one does, whatever the review says.
\<close>

theorem send_only_on_explicit_y:
  "(user_choice \<noteq> ''y'' \<longrightarrow>
      send_email review user_choice sends to subject content = (False, [])
      \<and> handle_send review user_choice sends to subject content = (msg_failed_to_send, []))
   \<and> (snd (send_email review user_choice sends to subject content) \<noteq> [] \<longrightarrow>
      user_choice = ''y'' \<and> (\<exists>review_text. review = Inr review_text))
   \<and> (user_choice = ''y'' \<and> review = Inr review_text \<longrightarrow>
      send_email review user_choice sends to subject content
        = (sends, [SendMessage to subject content]))"
  by (cases review) (simp_all add: send_email_def handle_send_def create_email_def)

theorem send_only_on_explicit_y_witness:
  "''n'' \<noteq> ''y''
   \<and> send_email (Inr ''Looks fine.'') ''n'' True ''bob@example.com'' ''Hi'' ''Hello Bob''
       = (False, [])
   \<and> snd (send_email (Inr ''Please send.'') ''y'' True ''bob@example.com'' ''Hi'' ''Hello Bob'')
       \<noteq> []
   \<and> send_email (Inr ''Please send.'') ''y'' True ''bob@example.com'' ''Hi'' ''Hello Bob''
       = (True, [SendMessage ''bob@example.com'' ''Hi'' ''Hello Bob''])"
proof -
  have n: "''n'' \<noteq> ''y''" by simp
  note T1 = send_only_on_explicit_y[of "''n''" "Inr ''Looks fine.''" True
      "''bob@example.com''" "''Hi''" "''Hello Bob''" "''Looks fine.''"]
  note T2 = send_only_on_explicit_y[of "''y''" "Inr ''Please send.''" True
      "''bob@example.com''" "''Hi''" "''Hello Bob''" "''Please send.''"]
  have a: "send_email (Inr ''Looks fine.'') ''n'' True ''bob@example.com'' ''Hi'' ''Hello Bob''
       = (False, [])"
    using conjunct1[OF T1] n by blast
  have b: "send_email (Inr ''Please send.'') ''y'' True ''bob@example.com'' ''Hi'' ''Hello Bob''
       = (True, [SendMessage ''bob@example.com'' ''Hi'' ''Hello Bob''])"
    using conjunct2[OF conjunct2[OF T2]] by blast
  then have c: "snd (send_email (Inr ''Please send.'') ''y'' True ''bob@example.com'' ''Hi''
       ''Hello Bob'') \<noteq> []"
    by simp
  from n a b c show ?thesis by (simp only: simp_thms)
qed

section \<open>Properties of the cleaning step\<close>

lemma startswith_append: "startswith (p @ s) p"
  by (simp add: startswith_prefix)

lemma endswith_append: "endswith (s @ p) p"
  by (simp add: endswith_def startswith_prefix)

lemma lstrip_spaces: "\<forall>c \<in> set w. is_space c \<Longrightarrow> lstrip (w @ s) = lstrip s"
  by (simp add: lstrip_def dropWhile_append2)

lemma lstrip_keeps: "\<not> is_space c \<Longrightarrow> lstrip (c # s) = c # s"
  by (simp add: lstrip_def)

lemma rstrip_spaces:
  assumes "\<forall>c \<in> set w. is_space c"
  shows "rstrip (s @ w) = rstrip s"
proof -
  from assms have "\<And>c. c \<in> set (rev w) \<Longrightarrow> is_space c" by simp
  then have "dropWhile is_space (rev w @ rev s) = dropWhile is_space (rev s)"
    by (rule dropWhile_append2)
  then show ?thesis by (simp add: rstrip_def)
qed

lemma rstrip_keeps: "\<not> is_space c \<Longrightarrow> rstrip (s @ [c]) = s @ [c]"
  by (simp add: rstrip_def)

lemma backtick_not_space: "\<not> is_space (CHR 0x60)"
  by (simp add: is_space_def Let_def)

lemma strip_fenced:
  assumes "\<forall>c \<in> set w1. is_space c" and "\<forall>c \<in> set w2. is_space c"
  shows "strip (fenced w1 j w2) = ''```json'' @ j @ ''```''"
proof -
  have "lstrip (fenced w1 j w2) = lstrip (''```json'' @ j @ ''```'' @ w2)"
    unfolding fenced_def using assms(1) by (rule lstrip_spaces)
  also have "\<dots> = ''```json'' @ j @ ''```'' @ w2"
    using lstrip_keeps[OF backtick_not_space] by simp
  finally have l: "lstrip (fenced w1 j w2) = (''```json'' @ j @ ''```'') @ w2" by simp
  have "rstrip ((''```json'' @ j @ ''```'') @ w2) = rstrip (''```json'' @ j @ ''```'')"
    using assms(2) by (rule rstrip_spaces)
  also have "\<dots> = rstrip ((''```json'' @ j @ ''``'') @ [CHR 0x60])" by simp
  also have "\<dots> = (''```json'' @ j @ ''``'') @ [CHR 0x60]"
    using backtick_not_space by (rule rstrip_keeps)
  finally show ?thesis by (simp add: strip_def l)
qed

lemma clean_analysis_fenced:
  assumes "\<forall>c \<in> set w1. is_space c" and "\<forall>c \<in> set w2. is_space c"
  shows "clean_analysis (fenced w1 j w2) = strip j"
proof -
  have s: "strip (fenced w1 j w2) = ''```json'' @ (j @ ''```'')"
    using strip_fenced[OF assms] by simp
  have a: "startswith (''```json'' @ (j @ ''```'')) ''```json''" by (rule startswith_append)
  have d: "drop 7 (''```json'' @ (j @ ''```'')) = j @ ''```''" by simp
  have e: "endswith (j @ ''```'') ''```''" by (rule endswith_append)
  have t: "take (length (j @ ''```'') - 3) (j @ ''```'') = j" by simp
  show ?thesis
    unfolding clean_analysis_def Let_def s using a e by (simp only: if_True d t)
qed

lemma clean_analysis_bare:
  assumes "\<not> startswith (strip j) ''```json''" and "\<not> endswith (strip j) ''```''"
  shows "clean_analysis j = strip j"
proof -
  have idem: "strip (strip j) = strip j"
  proof -
    have r: "rstrip (rstrip s) = rstrip s" for s
      by (simp add: rstrip_def dropWhile_idem)
    have "lstrip (rstrip (lstrip j)) = rstrip (lstrip j)"
    proof (cases "rstrip (lstrip j)")
      case Nil
      then show ?thesis by (simp add: lstrip_def)
    next
      case (Cons c cs)
      have "lstrip j \<noteq> []" using Cons by (auto simp: rstrip_def)
      then have h: "\<not> is_space (hd (lstrip j))"
        unfolding lstrip_def by (rule hd_dropWhile)
      have "\<exists>zs. lstrip j = rstrip (lstrip j) @ zs"
      proof -
        have "rev (lstrip j) = takeWhile is_space (rev (lstrip j)) @ dropWhile is_space (rev (lstrip j))"
          by simp
        then have "lstrip j = rev (dropWhile is_space (rev (lstrip j))) @ rev (takeWhile is_space (rev (lstrip j)))"
          by (metis rev_append rev_rev_ident)
        then show ?thesis unfolding rstrip_def by blast
      qed
      then obtain zs where "lstrip j = (c # cs) @ zs" using Cons by auto
      then have "hd (lstrip j) = c" by simp
      with h have "\<not> is_space c" by simp
      then show ?thesis by (simp add: Cons lstrip_keeps)
    qed
    then show ?thesis by (simp add: strip_def r)
  qed
  show ?thesis
    unfolding clean_analysis_def Let_def using assms by (simp only: if_False idem)
qed

section \<open>Claims about the cleaning step\<close>

text \<open>
  C9. For every text \<open>j\<close>, the cleaning step applied to the fence \<^verbatim>\<open>```json\<close>, \<open>j\<close>,
  \<^verbatim>\<open>```\<close>, with whitespace before and after the fence (whitespace inside the fence is part
  of \<open>j\<close>), yields \<open>j\<close> without its leading and trailing whitespace. The cleaning step
  applied to \<open>j\<close> alone yields the same string when \<open>j\<close>, stripped, neither starts with
  the opening fence nor ends with the closing one, as is the case of every JSON text (it
  starts with a brace, a bracket, a quote, a minus sign, a digit or a letter). So the fenced
  answer and the bare one hand the same string to the JSON parser, which ignores the
  whitespace around a JSON text.
\<close>

theorem clean_analysis_fence_roundtrip:
  assumes "\<forall>c \<in> set w1. is_space c" and "\<forall>c \<in> set w2. is_space c"
  shows "clean_analysis (fenced w1 j w2) = strip j
       \<and> (\<not> startswith (strip j) ''```json'' \<and> \<not> endswith (strip j) ''```''
            \<longrightarrow> clean_analysis (fenced w1 j w2) = clean_analysis j)"
  using clean_analysis_fenced[OF assms, of j] clean_analysis_bare[of j] by simp

theorem clean_analysis_fence_roundtrip_witness:
  "list_all is_space [CHR 0x0A, CHR '' '']
   \<and> \<not> startswith (strip (CHR 0x0A # ''{\"intent\": \"list\"}'' @ [CHR 0x0A])) ''```json''
   \<and> \<not> endswith (strip (CHR 0x0A # ''{\"intent\": \"list\"}'' @ [CHR 0x0A])) ''```''
   \<and> clean_analysis (fenced [CHR 0x0A, CHR '' ''] (CHR 0x0A # ''{\"intent\": \"list\"}'' @ [CHR 0x0A])
         [CHR 0x0A, CHR '' ''])
       = ''{\"intent\": \"list\"}''
   \<and> clean_analysis (CHR 0x0A # ''{\"intent\": \"list\"}'' @ [CHR 0x0A]) = ''{\"intent\": \"list\"}''"
proof -
  let ?w = "[CHR 0x0A, CHR '' '']"
  let ?j = "CHR 0x0A # ''{\"intent\": \"list\"}'' @ [CHR 0x0A]"
  have w: "\<forall>c \<in> set ?w. is_space c" by (simp add: is_space_def Let_def)
  have sj: "strip ?j = ''{\"intent\": \"list\"}''"
    by (simp add: strip_def lstrip_def rstrip_def is_space_def Let_def)
  have a: "\<not> startswith (strip ?j) ''```json''" unfolding sj by simp
  have b: "\<not> endswith (strip ?j) ''```''" unfolding sj by (simp add: endswith_def)
  note T = clean_analysis_fence_roundtrip[OF w w, of ?j]
  have c: "clean_analysis (fenced ?w ?j ?w) = ''{\"intent\": \"list\"}''"
    using conjunct1[OF T] by (simp only: sj)
  have e: "clean_analysis (fenced ?w ?j ?w) = clean_analysis ?j"
    using conjunct2[OF T] a b by blast
  have d: "clean_analysis ?j = ''{\"intent\": \"list\"}''"
    by (rule trans[OF sym[OF e] c])
  have l: "list_all is_space ?w" by (simp add: is_space_def Let_def)
  from l a b c d show ?thesis by (simp only: simp_thms)
qed

end
